theory Spec2Isabelle
  imports Main
begin

section \<open>Data model of \<open>src/App.tsx\<close>\<close>

text \<open>
  \<^verbatim>\<open>type PieceType = 'king' | 'queen' | 'rook' | 'bishop' | 'knight' | 'pawn' | null\<close>:
  the union has seven members, the last one being \<^verbatim>\<open>null\<close>.
\<close>

datatype PieceType = King | Queen | Rook | Bishop | Knight | Pawn | NullType

datatype PieceColor = White | Black

record Piece =
  type :: PieceType
  color :: PieceColor

text \<open>
  \<^verbatim>\<open>type Board = (Piece | null)[][]\<close>: an array of rows, every row an array of cells,
  a cell being a piece or \<^verbatim>\<open>null\<close> (here \<open>None\<close>). The type does not fix the
  number of rows or their lengths.
\<close>

type_synonym Board = "Piece option list list"

text \<open>
  Reading \<^verbatim>\<open>board[r]\<close> outside the array gives \<^verbatim>\<open>undefined\<close>, and indexing
  \<^verbatim>\<open>undefined\<close> throws a \<^verbatim>\<open>TypeError\<close>; so does reading a property of
  \<^verbatim>\<open>null\<close>. A loop may also run forever. The outcome of a call is \<open>None\<close> when it does
  not return, \<open>Some (Inl e)\<close> when it throws and \<open>Some (Inr v)\<close> when it returns \<open>v\<close>.
\<close>

datatype error = TypeError

type_synonym 'a outcome = "(error + 'a) option"

text \<open>
  \<^verbatim>\<open>board[r][c]\<close>. A row index outside the board throws; a column index outside the
  row yields \<^verbatim>\<open>undefined\<close>, which every use in the program treats like \<^verbatim>\<open>null\<close>
  (it is only ever tested for truthiness).
\<close>

definition at :: "Board \<Rightarrow> int \<Rightarrow> int \<Rightarrow> error + Piece option" where
  "at board r c =
     (if 0 \<le> r \<and> r < int (length board) then
        (let row = board ! nat r in
         if 0 \<le> c \<and> c < int (length row) then Inr (row ! nat c) else Inr None)
      else Inl TypeError)"

section \<open>\<open>isPathClear\<close>\<close>

text \<open>
  The \<^verbatim>\<open>while\<close> loop of \<^verbatim>\<open>isPathClear\<close>, with the loop variables
  \<open>currentRow\<close> and \<open>currentCol\<close> as arguments. Nothing bounds the loop, so it is a
  partial function: \<open>None\<close> means that it runs forever.
\<close>

partial_function (option) isPathClear_loop ::
  "Board \<Rightarrow> int \<Rightarrow> int \<Rightarrow> int \<Rightarrow> int \<Rightarrow> int \<Rightarrow> int \<Rightarrow> bool outcome" where
  "isPathClear_loop board rowStep colStep toRow toCol currentRow currentCol =
     (if currentRow \<noteq> toRow \<or> currentCol \<noteq> toCol then
        (case at board currentRow currentCol of
           Inl e \<Rightarrow> Some (Inl e)
         | Inr (Some p) \<Rightarrow> Some (Inr False)
         | Inr None \<Rightarrow>
             isPathClear_loop board rowStep colStep toRow toCol
               (currentRow + rowStep) (currentCol + colStep))
      else Some (Inr True))"

declare isPathClear_loop.simps [code]

definition isPathClear :: "Board \<Rightarrow> int \<Rightarrow> int \<Rightarrow> int \<Rightarrow> int \<Rightarrow> bool outcome" where
  "isPathClear board fromRow fromCol toRow toCol =
     (let rowStep = (if toRow > fromRow then 1 else if toRow < fromRow then -1 else 0);
          colStep = (if toCol > fromCol then 1 else if toCol < fromCol then -1 else 0)
      in isPathClear_loop board rowStep colStep toRow toCol
           (fromRow + rowStep) (fromCol + colStep))"

section \<open>\<open>isValidMove\<close>\<close>

text \<open>The test \<^verbatim>\<open>!board[r][c]\<close>.\<close>

definition isEmpty :: "Board \<Rightarrow> int \<Rightarrow> int \<Rightarrow> error + bool" where
  "isEmpty board r c = (case at board r c of Inl e \<Rightarrow> Inl e | Inr cell \<Rightarrow> Inr (cell = None))"

text \<open>
  The \<^verbatim>\<open>case 'pawn'\<close> branch. Both \<^verbatim>\<open>&&\<close> chains short-circuit: the board is
  read at the destination only when the comparisons before it hold.
\<close>

definition pawnMove :: "Board \<Rightarrow> Piece \<Rightarrow> int \<Rightarrow> int \<Rightarrow> int \<Rightarrow> int \<Rightarrow> bool outcome" where
  "pawnMove board piece fromRow fromCol toRow toCol =
     (let colDiff = \<bar>toCol - fromCol\<bar>;
          direction = (if color piece = White then -1 else 1);
          startRow = (if color piece = White then 6 else 1)
      in
      if fromCol = toCol then
        (case (if toRow = fromRow + direction then isEmpty board toRow toCol else Inr False) of
           Inl e \<Rightarrow> Some (Inl e)
         | Inr single \<Rightarrow>
             if single then Some (Inr True)
             else
               (case (if fromRow = startRow \<and> toRow = fromRow + 2 * direction
                      then isEmpty board toRow toCol else Inr False) of
                  Inl e \<Rightarrow> Some (Inl e)
                | Inr double \<Rightarrow> if double then Some (Inr True) else Some (Inr False)))
      else if colDiff = 1 \<and> toRow = fromRow + direction then
        (case at board toRow toCol of
           Inl e \<Rightarrow> Some (Inl e)
         | Inr None \<Rightarrow> Some (Inr False)
         | Inr (Some target) \<Rightarrow> Some (Inr (color target \<noteq> color piece)))
      else Some (Inr False))"

definition isValidMove :: "Board \<Rightarrow> int \<Rightarrow> int \<Rightarrow> int \<Rightarrow> int \<Rightarrow> bool outcome" where
  "isValidMove board fromRow fromCol toRow toCol =
     (case at board fromRow fromCol of
        Inl e \<Rightarrow> Some (Inl e)
      | Inr None \<Rightarrow> Some (Inr False)
      | Inr (Some piece) \<Rightarrow>
          (let rowDiff = \<bar>toRow - fromRow\<bar>;
               colDiff = \<bar>toCol - fromCol\<bar>
           in
           case type piece of
             Pawn \<Rightarrow> pawnMove board piece fromRow fromCol toRow toCol
           | Rook \<Rightarrow>
               if rowDiff = 0 \<or> colDiff = 0
               then isPathClear board fromRow fromCol toRow toCol else Some (Inr False)
           | Bishop \<Rightarrow>
               if rowDiff = colDiff
               then isPathClear board fromRow fromCol toRow toCol else Some (Inr False)
           | Queen \<Rightarrow>
               if rowDiff = 0 \<or> colDiff = 0 \<or> rowDiff = colDiff
               then isPathClear board fromRow fromCol toRow toCol else Some (Inr False)
           | Knight \<Rightarrow> Some (Inr ((rowDiff = 2 \<and> colDiff = 1) \<or> (rowDiff = 1 \<and> colDiff = 2)))
           | King \<Rightarrow> Some (Inr (rowDiff \<le> 1 \<and> colDiff \<le> 1))
           | NullType \<Rightarrow> Some (Inr False)))"

section \<open>\<open>getPossibleMoves\<close>\<close>

text \<open>
  The condition of the \<^verbatim>\<open>if\<close> in the inner loop:
  \<^verbatim>\<open>isValidMove(row, col, r, c) && (!board[r][c] || board[r][c]!.color !== board[row][col]!.color)\<close>.
  Reading \<^verbatim>\<open>.color\<close> of an empty source square would throw.
\<close>

definition keepMove :: "Board \<Rightarrow> int \<Rightarrow> int \<Rightarrow> int \<Rightarrow> int \<Rightarrow> bool outcome" where
  "keepMove board row col r c =
     (case isValidMove board row col r c of
        None \<Rightarrow> None
      | Some (Inl e) \<Rightarrow> Some (Inl e)
      | Some (Inr valid) \<Rightarrow>
          if \<not> valid then Some (Inr False)
          else
            (case at board r c of
               Inl e \<Rightarrow> Some (Inl e)
             | Inr None \<Rightarrow> Some (Inr True)
             | Inr (Some target) \<Rightarrow>
                 (case at board row col of
                    Inl e \<Rightarrow> Some (Inl e)
                  | Inr None \<Rightarrow> Some (Inl TypeError)
                  | Inr (Some piece) \<Rightarrow> Some (Inr (color target \<noteq> color piece)))))"

text \<open>The inner \<^verbatim>\<open>for\<close> loop over \<open>c\<close>; \<open>moves\<close> is the array being filled.\<close>

function getPossibleMoves_cols ::
  "Board \<Rightarrow> int \<Rightarrow> int \<Rightarrow> int \<Rightarrow> int \<Rightarrow> (int \<times> int) list \<Rightarrow> (int \<times> int) list outcome" where
  "getPossibleMoves_cols board row col r c moves =
     (if c < 8 then
        (case keepMove board row col r c of
           None \<Rightarrow> None
         | Some (Inl e) \<Rightarrow> Some (Inl e)
         | Some (Inr keep) \<Rightarrow>
             getPossibleMoves_cols board row col r (c + 1)
               (if keep then moves @ [(r, c)] else moves))
      else Some (Inr moves))"
  by pat_completeness auto
termination
  by (relation "measure (\<lambda>(board, row, col, r, c, moves). nat (8 - c))") auto

declare getPossibleMoves_cols.simps [simp del]

text \<open>The outer \<^verbatim>\<open>for\<close> loop over \<open>r\<close>.\<close>

function getPossibleMoves_rows ::
  "Board \<Rightarrow> int \<Rightarrow> int \<Rightarrow> int \<Rightarrow> (int \<times> int) list \<Rightarrow> (int \<times> int) list outcome" where
  "getPossibleMoves_rows board row col r moves =
     (if r < 8 then
        (case getPossibleMoves_cols board row col r 0 moves of
           None \<Rightarrow> None
         | Some (Inl e) \<Rightarrow> Some (Inl e)
         | Some (Inr moves') \<Rightarrow> getPossibleMoves_rows board row col (r + 1) moves')
      else Some (Inr moves))"
  by pat_completeness auto
termination
  by (relation "measure (\<lambda>(board, row, col, r, moves). nat (8 - r))") auto

declare getPossibleMoves_rows.simps [simp del]

definition getPossibleMoves :: "Board \<Rightarrow> int \<Rightarrow> int \<Rightarrow> (int \<times> int) list outcome" where
  "getPossibleMoves board row col = getPossibleMoves_rows board row col 0 []"

section \<open>\<open>initialBoard\<close>\<close>

definition initialBoard :: Board where
  "initialBoard =
     [ [ Some \<lparr>type = Rook, color = Black\<rparr>, Some \<lparr>type = Knight, color = Black\<rparr>,
         Some \<lparr>type = Bishop, color = Black\<rparr>, Some \<lparr>type = Queen, color = Black\<rparr>,
         Some \<lparr>type = King, color = Black\<rparr>, Some \<lparr>type = Bishop, color = Black\<rparr>,
         Some \<lparr>type = Knight, color = Black\<rparr>, Some \<lparr>type = Rook, color = Black\<rparr> ],
       replicate 8 (Some \<lparr>type = Pawn, color = Black\<rparr>),
       replicate 8 None,
       replicate 8 None,
       replicate 8 None,
       replicate 8 None,
       replicate 8 (Some \<lparr>type = Pawn, color = White\<rparr>),
       [ Some \<lparr>type = Rook, color = White\<rparr>, Some \<lparr>type = Knight, color = White\<rparr>,
         Some \<lparr>type = Bishop, color = White\<rparr>, Some \<lparr>type = Queen, color = White\<rparr>,
         Some \<lparr>type = King, color = White\<rparr>, Some \<lparr>type = Bishop, color = White\<rparr>,
         Some \<lparr>type = Knight, color = White\<rparr>, Some \<lparr>type = Rook, color = White\<rparr> ] ]"

section \<open>Vocabulary of the properties\<close>

text \<open>
  The board of the game has eight rows of eight cells, and a square is a pair of
  coordinates between 0 and 7.
\<close>

definition wf_board :: "Board \<Rightarrow> bool" where
  "wf_board board \<longleftrightarrow> length board = 8 \<and> list_all (\<lambda>row. length row = 8) board"

definition onBoard :: "int \<Rightarrow> int \<Rightarrow> bool" where
  "onBoard r c \<longleftrightarrow> 0 \<le> r \<and> r < 8 \<and> 0 \<le> c \<and> c < 8"

text \<open>
  The board with \<open>piece\<close> put on the square \<open>(r, c)\<close>, as the assignment
  \<^verbatim>\<open>newBoard[row][col] = ...\<close> of \<^verbatim>\<open>handleSquareClick\<close> does on a copy of the board.
  It is only used for squares of the board.
\<close>

definition place :: "Board \<Rightarrow> int \<Rightarrow> int \<Rightarrow> Piece \<Rightarrow> Board" where
  "place board r c piece = board[nat r := (board ! nat r)[nat c := Some piece]]"

text \<open>
  The squares strictly between \<open>(fromRow, fromCol)\<close> and \<open>(toRow, toCol)\<close> on the
  straight or diagonal line from the one to the other, nearest to the source first.
\<close>

definition between :: "int \<Rightarrow> int \<Rightarrow> int \<Rightarrow> int \<Rightarrow> (int \<times> int) list" where
  "between fromRow fromCol toRow toCol =
     map (\<lambda>k. (fromRow + k * sgn (toRow - fromRow), fromCol + k * sgn (toCol - fromCol)))
       [1 .. max \<bar>toRow - fromRow\<bar> \<bar>toCol - fromCol\<bar> - 1]"

text \<open>
  The line pattern of a piece, in the words of the specification: same row or same
  column for a rook, equal absolute row and column differences for a bishop, either
  for a queen.
\<close>

definition fitsLine :: "PieceType \<Rightarrow> int \<Rightarrow> int \<Rightarrow> int \<Rightarrow> int \<Rightarrow> bool" where
  "fitsLine t fromRow fromCol toRow toCol =
     (let straight = (toRow = fromRow \<or> toCol = fromCol);
          diagonal = (\<bar>toRow - fromRow\<bar> = \<bar>toCol - fromCol\<bar>)
      in case t of
           Rook \<Rightarrow> straight
         | Bishop \<Rightarrow> diagonal
         | Queen \<Rightarrow> straight \<or> diagonal
         | _ \<Rightarrow> False)"

text \<open>The 64 squares in the order in which \<^verbatim>\<open>getPossibleMoves\<close> scans them.\<close>

definition allSquares :: "(int \<times> int) list" where
  "allSquares = concat (map (\<lambda>r. map (\<lambda>c. (r, c)) [0 .. 7]) [0 .. 7])"

text \<open>
  Whether the scan of \<^verbatim>\<open>getPossibleMoves\<close> pushes the square \<open>sq\<close>: the condition of
  its \<^verbatim>\<open>if\<close> returns \<open>true\<close>.
\<close>

definition keeps :: "Board \<Rightarrow> int \<Rightarrow> int \<Rightarrow> int \<times> int \<Rightarrow> bool" where
  "keeps board row col sq \<longleftrightarrow> keepMove board row col (fst sq) (snd sq) = Some (Inr True)"

section \<open>The initial position, row by row\<close>

lemma initialBoard_rows:
  "initialBoard =
     [ [ Some \<lparr>type = Rook, color = Black\<rparr>, Some \<lparr>type = Knight, color = Black\<rparr>,
         Some \<lparr>type = Bishop, color = Black\<rparr>, Some \<lparr>type = Queen, color = Black\<rparr>,
         Some \<lparr>type = King, color = Black\<rparr>, Some \<lparr>type = Bishop, color = Black\<rparr>,
         Some \<lparr>type = Knight, color = Black\<rparr>, Some \<lparr>type = Rook, color = Black\<rparr> ],
       [ Some \<lparr>type = Pawn, color = Black\<rparr>, Some \<lparr>type = Pawn, color = Black\<rparr>,
         Some \<lparr>type = Pawn, color = Black\<rparr>, Some \<lparr>type = Pawn, color = Black\<rparr>,
         Some \<lparr>type = Pawn, color = Black\<rparr>, Some \<lparr>type = Pawn, color = Black\<rparr>,
         Some \<lparr>type = Pawn, color = Black\<rparr>, Some \<lparr>type = Pawn, color = Black\<rparr> ],
       [None, None, None, None, None, None, None, None],
       [None, None, None, None, None, None, None, None],
       [None, None, None, None, None, None, None, None],
       [None, None, None, None, None, None, None, None],
       [ Some \<lparr>type = Pawn, color = White\<rparr>, Some \<lparr>type = Pawn, color = White\<rparr>,
         Some \<lparr>type = Pawn, color = White\<rparr>, Some \<lparr>type = Pawn, color = White\<rparr>,
         Some \<lparr>type = Pawn, color = White\<rparr>, Some \<lparr>type = Pawn, color = White\<rparr>,
         Some \<lparr>type = Pawn, color = White\<rparr>, Some \<lparr>type = Pawn, color = White\<rparr> ],
       [ Some \<lparr>type = Rook, color = White\<rparr>, Some \<lparr>type = Knight, color = White\<rparr>,
         Some \<lparr>type = Bishop, color = White\<rparr>, Some \<lparr>type = Queen, color = White\<rparr>,
         Some \<lparr>type = King, color = White\<rparr>, Some \<lparr>type = Bishop, color = White\<rparr>,
         Some \<lparr>type = Knight, color = White\<rparr>, Some \<lparr>type = Rook, color = White\<rparr> ] ]"
  by (simp add: initialBoard_def eval_nat_numeral)

lemma wf_initialBoard: "wf_board initialBoard"
  by (simp add: wf_board_def initialBoard_rows)

section \<open>Reading and writing squares of the board\<close>

lemma at_onBoard:
  "wf_board board \<Longrightarrow> onBoard r c \<Longrightarrow> at board r c = Inr (board ! nat r ! nat c)"
  by (auto simp add: wf_board_def onBoard_def at_def Let_def list_all_length)

lemma wf_board_place: "wf_board board \<Longrightarrow> wf_board (place board r c piece)"
proof (cases "nat r < length board")
  case True
  then show "wf_board board \<Longrightarrow> wf_board (place board r c piece)"
    by (auto simp add: wf_board_def place_def list_all_length nth_list_update)
next
  case False
  then show "wf_board board \<Longrightarrow> wf_board (place board r c piece)"
    by (simp add: place_def list_update_beyond)
qed

lemma at_place:
  assumes wf: "wf_board board" and sq: "onBoard r c" and sq': "onBoard r' c'"
  shows "at (place board r c piece) r' c' =
           (if r' = r \<and> c' = c then Inr (Some piece) else at board r' c')"
proof -
  have "place board r c piece ! nat r' ! nat c' =
          (if r' = r \<and> c' = c then Some piece else board ! nat r' ! nat c')"
    using wf sq sq'
    by (auto simp add: wf_board_def onBoard_def place_def list_all_length nth_list_update)
  then show ?thesis
    using at_onBoard [OF wf_board_place [OF wf] sq', of r c piece] at_onBoard [OF wf sq']
    by simp
qed

section \<open>Moves decided without walking a path\<close>

text \<open>
  Claim C5. When the source square is empty, \<open>isValidMove\<close> returns \<open>false\<close>, whatever
  the destination is.
\<close>

theorem isValidMove_empty_source:
  "at board fromRow fromCol = Inr None \<Longrightarrow>
   isValidMove board fromRow fromCol toRow toCol = Some (Inr False)"
  by (simp add: isValidMove_def)

theorem isValidMove_empty_source_witness:
  "at initialBoard 3 3 = Inr None \<and> isValidMove initialBoard 3 3 4 4 = Some (Inr False)"
proof -
  have h: "at initialBoard 3 3 = Inr None"
    by (simp add: at_def initialBoard_rows)
  from isValidMove_empty_source [OF h, of 4 4] h show ?thesis by simp
qed

text \<open>
  Claim C6. With a knight on the source square, \<open>isValidMove\<close> returns \<open>true\<close> exactly
  when the absolute row and column differences are (2,1) or (1,2). The result does not
  depend on any other square of the board: no path is walked.
\<close>

theorem isValidMove_knight:
  "at board fromRow fromCol = Inr (Some piece) \<Longrightarrow> type piece = Knight \<Longrightarrow>
   isValidMove board fromRow fromCol toRow toCol =
     Some (Inr ((\<bar>toRow - fromRow\<bar> = 2 \<and> \<bar>toCol - fromCol\<bar> = 1) \<or>
                (\<bar>toRow - fromRow\<bar> = 1 \<and> \<bar>toCol - fromCol\<bar> = 2)))"
  by (simp add: isValidMove_def Let_def)

theorem isValidMove_knight_witness:
  "at initialBoard 7 1 = Inr (Some \<lparr>type = Knight, color = White\<rparr>) \<and>
   type \<lparr>type = Knight, color = White\<rparr> = Knight \<and>
   isValidMove initialBoard 7 1 5 2 = Some (Inr True) \<and>
   isValidMove initialBoard 7 1 5 1 = Some (Inr False)"
proof -
  have h: "at initialBoard 7 1 = Inr (Some \<lparr>type = Knight, color = White\<rparr>)"
    by (simp add: at_def initialBoard_rows)
  have t: "type \<lparr>type = Knight, color = White\<rparr> = Knight" by simp
  from isValidMove_knight [OF h t, of 5 2] isValidMove_knight [OF h t, of 5 1] h
  show ?thesis by simp
qed

text \<open>
  Claim C9. With a king on the source square, the move of zero displacement, from the
  source square to itself, is reported legal by \<open>isValidMove\<close>.
\<close>

theorem isValidMove_king_zero:
  "at board fromRow fromCol = Inr (Some piece) \<Longrightarrow> type piece = King \<Longrightarrow>
   isValidMove board fromRow fromCol fromRow fromCol = Some (Inr True)"
  by (simp add: isValidMove_def)

theorem isValidMove_king_zero_witness:
  "at initialBoard 7 4 = Inr (Some \<lparr>type = King, color = White\<rparr>) \<and>
   type \<lparr>type = King, color = White\<rparr> = King \<and>
   isValidMove initialBoard 7 4 7 4 = Some (Inr True)"
proof -
  have h: "at initialBoard 7 4 = Inr (Some \<lparr>type = King, color = White\<rparr>)"
    by (simp add: at_def initialBoard_rows)
  have t: "type \<lparr>type = King, color = White\<rparr> = King" by simp
  from isValidMove_king_zero [OF h t] h show ?thesis by simp
qed

text \<open>
  Claim C2. A pawn on its start row (row 6 for white, row 1 for black) may advance two
  steps straight ahead whenever the destination square is empty. Nothing is assumed of
  the square in between, which the code never reads.
\<close>

theorem pawn_double_step:
  "at board fromRow fromCol = Inr (Some piece) \<Longrightarrow> type piece = Pawn \<Longrightarrow>
   fromRow = (if color piece = White then 6 else 1) \<Longrightarrow>
   toRow = fromRow + 2 * (if color piece = White then -1 else 1) \<Longrightarrow>
   at board toRow fromCol = Inr None \<Longrightarrow>
   isValidMove board fromRow fromCol toRow fromCol = Some (Inr True)"
  by (simp add: isValidMove_def pawnMove_def isEmpty_def split: if_splits)

text \<open>The witness has a black knight standing between the white pawn and its destination.\<close>

theorem pawn_double_step_witness:
  "at (place initialBoard 5 4 \<lparr>type = Knight, color = Black\<rparr>) 6 4
     = Inr (Some \<lparr>type = Pawn, color = White\<rparr>) \<and>
   at (place initialBoard 5 4 \<lparr>type = Knight, color = Black\<rparr>) 5 4
     = Inr (Some \<lparr>type = Knight, color = Black\<rparr>) \<and>
   at (place initialBoard 5 4 \<lparr>type = Knight, color = Black\<rparr>) 4 4 = Inr None \<and>
   isValidMove (place initialBoard 5 4 \<lparr>type = Knight, color = Black\<rparr>) 6 4 4 4
     = Some (Inr True)"
proof -
  let ?b = "place initialBoard 5 4 \<lparr>type = Knight, color = Black\<rparr>"
  let ?p = "\<lparr>type = Pawn, color = White\<rparr>"
  have sq: "onBoard 5 4" "onBoard 6 4" "onBoard 4 4"
    by (simp_all add: onBoard_def)
  have src: "at ?b 6 4 = Inr (Some ?p)"
    using at_place [OF wf_initialBoard sq(1) sq(2)] by (simp add: at_def initialBoard_rows)
  have mid: "at ?b 5 4 = Inr (Some \<lparr>type = Knight, color = Black\<rparr>)"
    using at_place [OF wf_initialBoard sq(1) sq(1)] by simp
  have dst: "at ?b 4 4 = Inr None"
    using at_place [OF wf_initialBoard sq(1) sq(3)] by (simp add: at_def initialBoard_rows)
  have kind: "type ?p = Pawn" by simp
  have start: "(6::int) = (if color ?p = White then 6 else 1)" by simp
  have two: "(4::int) = 6 + 2 * (if color ?p = White then -1 else 1)" by simp
  have "isValidMove ?b 6 4 4 4 = Some (Inr True)"
    by (rule pawn_double_step [OF src kind start two dst])
  with src mid dst show ?thesis by simp
qed

text \<open>The witness has a black knight standing between the white pawn and its destination.\<close>

text \<open>
  Claim C4. For a pawn, a move one step in its direction to a neighbouring column is
  reported legal exactly when the destination holds a piece of the opposite colour: an
  empty destination and a destination holding a piece of the pawn's own colour both give
  \<open>false\<close>.
\<close>

theorem pawn_diagonal:
  "at board fromRow fromCol = Inr (Some piece) \<Longrightarrow> type piece = Pawn \<Longrightarrow>
   \<bar>toCol - fromCol\<bar> = 1 \<Longrightarrow>
   toRow = fromRow + (if color piece = White then -1 else 1) \<Longrightarrow>
   at board toRow toCol = Inr cell \<Longrightarrow>
   isValidMove board fromRow fromCol toRow toCol =
     Some (Inr (case cell of None \<Rightarrow> False | Some target \<Rightarrow> color target \<noteq> color piece))"
  by (auto simp add: isValidMove_def pawnMove_def isEmpty_def split: option.splits)

theorem pawn_diagonal_witness:
  "isValidMove (place initialBoard 5 5 \<lparr>type = Bishop, color = Black\<rparr>) 6 4 5 5
     = Some (Inr True) \<and>
   isValidMove (place initialBoard 5 5 \<lparr>type = Bishop, color = White\<rparr>) 6 4 5 5
     = Some (Inr False) \<and>
   isValidMove initialBoard 6 4 5 5 = Some (Inr False)"
proof -
  let ?p = "\<lparr>type = Pawn, color = White\<rparr>"
  have sq: "onBoard 5 5" "onBoard 6 4"
    by (simp_all add: onBoard_def)
  have src: "at (place initialBoard 5 5 x) 6 4 = Inr (Some ?p)" for x
    using at_place [OF wf_initialBoard sq(1) sq(2)] by (simp add: at_def initialBoard_rows)
  have dst: "at (place initialBoard 5 5 x) 5 5 = Inr (Some x)" for x
    using at_place [OF wf_initialBoard sq(1) sq(1)] by simp
  have src0: "at initialBoard 6 4 = Inr (Some ?p)" and dst0: "at initialBoard 5 5 = Inr None"
    by (simp_all add: at_def initialBoard_rows)
  have kind: "type ?p = Pawn" by simp
  have side: "\<bar>5 - 4 :: int\<bar> = 1" by simp
  have ahead: "(5::int) = 6 + (if color ?p = White then -1 else 1)" by simp
  have "isValidMove (place initialBoard 5 5 \<lparr>type = Bishop, color = Black\<rparr>) 6 4 5 5
          = Some (Inr True)"
    using pawn_diagonal [OF src kind side ahead dst] by simp
  moreover
  have "isValidMove (place initialBoard 5 5 \<lparr>type = Bishop, color = White\<rparr>) 6 4 5 5
          = Some (Inr False)"
    using pawn_diagonal [OF src kind side ahead dst] by simp
  moreover
  have "isValidMove initialBoard 6 4 5 5 = Some (Inr False)"
    using pawn_diagonal [OF src0 kind side ahead dst0] by simp
  ultimately show ?thesis by simp
qed

section \<open>Walking the path of a rook, a bishop or a queen\<close>

text \<open>
  From a square that lies \<open>n\<close> steps before the destination, with all the squares on
  the way on the board, the loop returns, and it returns whether these \<open>n\<close> squares
  are all empty.
\<close>

lemma loop_walks:
  assumes wf: "wf_board board" and step: "rowStep \<noteq> 0 \<or> colStep \<noteq> 0"
  shows "\<forall>k<n. onBoard (currentRow + int k * rowStep) (currentCol + int k * colStep) \<Longrightarrow>
         toRow = currentRow + int n * rowStep \<Longrightarrow> toCol = currentCol + int n * colStep \<Longrightarrow>
         isPathClear_loop board rowStep colStep toRow toCol currentRow currentCol =
           Some (Inr (\<forall>k<n. at board (currentRow + int k * rowStep) (currentCol + int k * colStep)
                              = Inr None))"
proof (induction n arbitrary: currentRow currentCol)
  case 0
  then show ?case by (subst isPathClear_loop.simps) simp
next
  case (Suc n)
  have here: "onBoard currentRow currentCol"
    using Suc.prems(1) by force
  have away: "currentRow \<noteq> toRow \<or> currentCol \<noteq> toCol"
    using step Suc.prems(2,3) by auto
  show ?case
  proof (cases "board ! nat currentRow ! nat currentCol")
    case (Some p)
    then have "at board currentRow currentCol = Inr (Some p)"
      using at_onBoard [OF wf here] by simp
    moreover from this
    have "\<not> (\<forall>k<Suc n. at board (currentRow + int k * rowStep) (currentCol + int k * colStep)
                 = Inr None)"
      by force
    ultimately show ?thesis
      using away by (subst isPathClear_loop.simps) simp
  next
    case None
    then have cell: "at board currentRow currentCol = Inr None"
      using at_onBoard [OF wf here] by simp
    have on: "\<forall>k<n. onBoard (currentRow + rowStep + int k * rowStep)
                          (currentCol + colStep + int k * colStep)"
    proof (intro allI impI)
      fix k assume "k < n"
      then have "onBoard (currentRow + int (Suc k) * rowStep) (currentCol + int (Suc k) * colStep)"
        using Suc.prems(1) by (meson Suc_less_eq)
      then show "onBoard (currentRow + rowStep + int k * rowStep)
                   (currentCol + colStep + int k * colStep)"
        by (simp add: algebra_simps)
    qed
    have ih: "isPathClear_loop board rowStep colStep toRow toCol
                (currentRow + rowStep) (currentCol + colStep) =
              Some (Inr (\<forall>k<n. at board (currentRow + rowStep + int k * rowStep)
                                   (currentCol + colStep + int k * colStep) = Inr None))"
      using Suc.prems(2,3) by (intro Suc.IH [OF on]) (simp_all add: algebra_simps)
    have shift: "(\<forall>k<Suc n. at board (currentRow + int k * rowStep) (currentCol + int k * colStep)
                    = Inr None) \<longleftrightarrow>
                 (\<forall>k<n. at board (currentRow + rowStep + int k * rowStep)
                                   (currentCol + colStep + int k * colStep) = Inr None)"
      (is "?L \<longleftrightarrow> ?R")
    proof
      assume l: ?L
      show ?R
      proof (intro allI impI)
        fix k assume "k < n"
        then have "at board (currentRow + int (Suc k) * rowStep) (currentCol + int (Suc k) * colStep) = Inr None"
          using l by (meson Suc_less_eq)
        then show "at board (currentRow + rowStep + int k * rowStep)
                                   (currentCol + colStep + int k * colStep) = Inr None"
          by (simp add: algebra_simps)
      qed
    next
      assume r: ?R
      show ?L
      proof (intro allI impI)
        fix k assume k: "k < Suc n"
        show "at board (currentRow + int k * rowStep) (currentCol + int k * colStep) = Inr None"
        proof (cases k)
          case 0
          then show ?thesis using cell by simp
        next
          case (Suc j)
          then have "j < n" using k by simp
          then have "at board (currentRow + rowStep + int j * rowStep)
                                   (currentCol + colStep + int j * colStep) = Inr None"
            using r by blast
          then show ?thesis using Suc by (simp add: algebra_simps)
        qed
      qed
    qed
    show ?thesis
      using away cell ih shift by (subst isPathClear_loop.simps) simp
  qed
qed

lemma between_clear_iff:
  "(\<forall>(r, c) \<in> set (between fromRow fromCol toRow toCol). at board r c = Inr None) \<longleftrightarrow>
   (\<forall>k < nat (max \<bar>toRow - fromRow\<bar> \<bar>toCol - fromCol\<bar> - 1).
      at board (fromRow + sgn (toRow - fromRow) + int k * sgn (toRow - fromRow))
               (fromCol + sgn (toCol - fromCol) + int k * sgn (toCol - fromCol)) = Inr None)"
  (is "?L \<longleftrightarrow> ?R")
proof
  assume l: ?L
  show ?R
  proof (intro allI impI)
    fix k assume "k < nat (max \<bar>toRow - fromRow\<bar> \<bar>toCol - fromCol\<bar> - 1)"
    then have "int k + 1 \<in> {1 .. max \<bar>toRow - fromRow\<bar> \<bar>toCol - fromCol\<bar> - 1}"
      by auto
    then have "(fromRow + (int k + 1) * sgn (toRow - fromRow),
                fromCol + (int k + 1) * sgn (toCol - fromCol))
               \<in> set (between fromRow fromCol toRow toCol)"
      unfolding between_def set_map set_upto by (rule imageI)
    with l have "at board (fromRow + (int k + 1) * sgn (toRow - fromRow))
                          (fromCol + (int k + 1) * sgn (toCol - fromCol)) = Inr None"
      by blast
    then show "at board (fromRow + sgn (toRow - fromRow) + int k * sgn (toRow - fromRow))
               (fromCol + sgn (toCol - fromCol) + int k * sgn (toCol - fromCol)) = Inr None"
      by (simp add: algebra_simps)
  qed
next
  assume r: ?R
  show ?L
  proof (clarify)
    fix a b assume "(a, b) \<in> set (between fromRow fromCol toRow toCol)"
    then obtain j where j: "1 \<le> j" "j \<le> max \<bar>toRow - fromRow\<bar> \<bar>toCol - fromCol\<bar> - 1"
      and a: "a = fromRow + j * sgn (toRow - fromRow)"
      and b: "b = fromCol + j * sgn (toCol - fromCol)"
      by (auto simp add: between_def)
    from j have "nat (j - 1) < nat (max \<bar>toRow - fromRow\<bar> \<bar>toCol - fromCol\<bar> - 1)"
      by linarith
    with r have "at board (fromRow + sgn (toRow - fromRow) + int (nat (j - 1)) * sgn (toRow - fromRow))
               (fromCol + sgn (toCol - fromCol) + int (nat (j - 1)) * sgn (toCol - fromCol)) = Inr None"
      by blast
    moreover have "int (nat (j - 1)) = j - 1" using j by simp
    ultimately show "at board a b = Inr None"
      using a b by (simp add: algebra_simps)
  qed
qed

lemma line_geometry:
  assumes "onBoard fromRow fromCol" "onBoard toRow toCol"
    and "toRow = fromRow \<or> toCol = fromCol \<or> \<bar>toRow - fromRow\<bar> = \<bar>toCol - fromCol\<bar>"
    and "0 < max \<bar>toRow - fromRow\<bar> \<bar>toCol - fromCol\<bar>"
  shows "sgn (toRow - fromRow) \<noteq> 0 \<or> sgn (toCol - fromCol) \<noteq> 0"
    and "toRow = fromRow + sgn (toRow - fromRow) +
           int (nat (max \<bar>toRow - fromRow\<bar> \<bar>toCol - fromCol\<bar> - 1)) * sgn (toRow - fromRow)"
    and "toCol = fromCol + sgn (toCol - fromCol) +
           int (nat (max \<bar>toRow - fromRow\<bar> \<bar>toCol - fromCol\<bar> - 1)) * sgn (toCol - fromCol)"
    and "\<forall>k < nat (max \<bar>toRow - fromRow\<bar> \<bar>toCol - fromCol\<bar> - 1).
           onBoard (fromRow + sgn (toRow - fromRow) + int k * sgn (toRow - fromRow))
                   (fromCol + sgn (toCol - fromCol) + int k * sgn (toCol - fromCol))"
proof -
  consider "toRow < fromRow" | "toRow = fromRow" | "fromRow < toRow" by linarith
  then have "(sgn (toRow - fromRow) \<noteq> 0 \<or> sgn (toCol - fromCol) \<noteq> 0) \<and>
    toRow = fromRow + sgn (toRow - fromRow) +
           int (nat (max \<bar>toRow - fromRow\<bar> \<bar>toCol - fromCol\<bar> - 1)) * sgn (toRow - fromRow) \<and>
    toCol = fromCol + sgn (toCol - fromCol) +
           int (nat (max \<bar>toRow - fromRow\<bar> \<bar>toCol - fromCol\<bar> - 1)) * sgn (toCol - fromCol) \<and>
    (\<forall>k < nat (max \<bar>toRow - fromRow\<bar> \<bar>toCol - fromCol\<bar> - 1).
           onBoard (fromRow + sgn (toRow - fromRow) + int k * sgn (toRow - fromRow))
                   (fromCol + sgn (toCol - fromCol) + int k * sgn (toCol - fromCol)))"
  proof cases
    case 1
    consider "toCol < fromCol" | "toCol = fromCol" | "fromCol < toCol" by linarith
    then show ?thesis
      using 1 assms by cases (auto simp add: onBoard_def)
  next
    case 2
    consider "toCol < fromCol" | "toCol = fromCol" | "fromCol < toCol" by linarith
    then show ?thesis
      using 2 assms by cases (auto simp add: onBoard_def)
  next
    case 3
    consider "toCol < fromCol" | "toCol = fromCol" | "fromCol < toCol" by linarith
    then show ?thesis
      using 3 assms by cases (auto simp add: onBoard_def)
  qed
  then show "sgn (toRow - fromRow) \<noteq> 0 \<or> sgn (toCol - fromCol) \<noteq> 0"
    and "toRow = fromRow + sgn (toRow - fromRow) +
           int (nat (max \<bar>toRow - fromRow\<bar> \<bar>toCol - fromCol\<bar> - 1)) * sgn (toRow - fromRow)"
    and "toCol = fromCol + sgn (toCol - fromCol) +
           int (nat (max \<bar>toRow - fromRow\<bar> \<bar>toCol - fromCol\<bar> - 1)) * sgn (toCol - fromCol)"
    and "\<forall>k < nat (max \<bar>toRow - fromRow\<bar> \<bar>toCol - fromCol\<bar> - 1).
           onBoard (fromRow + sgn (toRow - fromRow) + int k * sgn (toRow - fromRow))
                   (fromCol + sgn (toCol - fromCol) + int k * sgn (toCol - fromCol))"
    by blast+
qed

lemma isPathClear_steps:
  "isPathClear board fromRow fromCol toRow toCol =
     isPathClear_loop board (sgn (toRow - fromRow)) (sgn (toCol - fromCol)) toRow toCol
       (fromRow + sgn (toRow - fromRow)) (fromCol + sgn (toCol - fromCol))"
  by (simp add: isPathClear_def Let_def sgn_if)

lemma isPathClear_line:
  assumes wf: "wf_board board" and src: "onBoard fromRow fromCol" and dst: "onBoard toRow toCol"
    and line: "toRow = fromRow \<or> toCol = fromCol \<or> \<bar>toRow - fromRow\<bar> = \<bar>toCol - fromCol\<bar>"
  shows "isPathClear board fromRow fromCol toRow toCol =
           Some (Inr (\<forall>(r, c) \<in> set (between fromRow fromCol toRow toCol). at board r c = Inr None))"
proof (cases "0 < max \<bar>toRow - fromRow\<bar> \<bar>toCol - fromCol\<bar>")
  case True
  note g = line_geometry [OF src dst line True]
  show ?thesis
    unfolding isPathClear_steps between_clear_iff
    by (rule loop_walks [OF wf g(1) g(4) g(2) g(3)])
next
  case False
  then have same: "toRow = fromRow" "toCol = fromCol" by auto
  then have "between fromRow fromCol toRow toCol = []"
    by (simp add: between_def)
  moreover have "isPathClear board fromRow fromCol toRow toCol = Some (Inr True)"
    unfolding isPathClear_steps using same by (subst isPathClear_loop.simps) simp
  ultimately show ?thesis by simp
qed

lemma isValidMove_line:
  assumes wf: "wf_board board" and src: "onBoard fromRow fromCol" and dst: "onBoard toRow toCol"
    and piece: "at board fromRow fromCol = Inr (Some piece)"
    and kind: "type piece \<in> {Rook, Bishop, Queen}"
  shows "isValidMove board fromRow fromCol toRow toCol =
           Some (Inr (fitsLine (type piece) fromRow fromCol toRow toCol \<and>
                      (\<forall>(r, c) \<in> set (between fromRow fromCol toRow toCol). at board r c = Inr None)))"
proof (cases "fitsLine (type piece) fromRow fromCol toRow toCol")
  case True
  then have line: "toRow = fromRow \<or> toCol = fromCol \<or> \<bar>toRow - fromRow\<bar> = \<bar>toCol - fromCol\<bar>"
    using kind by (auto simp add: fitsLine_def)
  have "isValidMove board fromRow fromCol toRow toCol =
          isPathClear board fromRow fromCol toRow toCol"
    using True kind piece by (auto simp add: isValidMove_def fitsLine_def)
  then show ?thesis
    using True isPathClear_line [OF wf src dst line] by simp
next
  case False
  then have "isValidMove board fromRow fromCol toRow toCol = Some (Inr False)"
    using kind piece by (auto simp add: isValidMove_def fitsLine_def)
  then show ?thesis using False by simp
qed

lemma between_inside:
  assumes src: "onBoard fromRow fromCol" and dst: "onBoard toRow toCol"
    and line: "toRow = fromRow \<or> toCol = fromCol \<or> \<bar>toRow - fromRow\<bar> = \<bar>toCol - fromCol\<bar>"
    and mem: "(r, c) \<in> set (between fromRow fromCol toRow toCol)"
  shows "onBoard r c" and "(r, c) \<noteq> (fromRow, fromCol)"
proof -
  from mem obtain j where j: "1 \<le> j" "j \<le> max \<bar>toRow - fromRow\<bar> \<bar>toCol - fromCol\<bar> - 1"
    and r: "r = fromRow + j * sgn (toRow - fromRow)"
    and c: "c = fromCol + j * sgn (toCol - fromCol)"
    by (auto simp add: between_def)
  from j have pos: "0 < max \<bar>toRow - fromRow\<bar> \<bar>toCol - fromCol\<bar>" by linarith
  note g = line_geometry [OF src dst line pos]
  from j have k: "nat (j - 1) < nat (max \<bar>toRow - fromRow\<bar> \<bar>toCol - fromCol\<bar> - 1)"
    by linarith
  have "int (nat (j - 1)) = j - 1" using j by simp
  with g(4) k have "onBoard (fromRow + sgn (toRow - fromRow) + (j - 1) * sgn (toRow - fromRow))
                   (fromCol + sgn (toCol - fromCol) + (j - 1) * sgn (toCol - fromCol))"
    by metis
  then show "onBoard r c" using r c by (simp add: algebra_simps)
  from g(1) j r c show "(r, c) \<noteq> (fromRow, fromCol)" by auto
qed

text \<open>
  Claim C1. On a board of eight by eight squares, with a rook, a bishop or a queen on the
  source square, \<open>isValidMove\<close> returns \<open>true\<close> if and only if the move fits the line
  pattern of the piece and every square strictly between the source and the destination
  on that line is empty. Putting any piece on one of these squares of a move that fits
  the pattern makes the result \<open>false\<close>.
\<close>

theorem line_piece_move:
  assumes wf: "wf_board board" and src: "onBoard fromRow fromCol" and dst: "onBoard toRow toCol"
    and piece: "at board fromRow fromCol = Inr (Some piece)"
    and kind: "type piece \<in> {Rook, Bishop, Queen}"
  shows "isValidMove board fromRow fromCol toRow toCol =
           Some (Inr (fitsLine (type piece) fromRow fromCol toRow toCol \<and>
                      (\<forall>(r, c) \<in> set (between fromRow fromCol toRow toCol). at board r c = Inr None)))
         \<and> (\<forall>r c blocker.
               fitsLine (type piece) fromRow fromCol toRow toCol \<and>
               (r, c) \<in> set (between fromRow fromCol toRow toCol) \<longrightarrow>
               isValidMove (place board r c blocker) fromRow fromCol toRow toCol = Some (Inr False))"
proof (intro conjI allI impI)
  show "isValidMove board fromRow fromCol toRow toCol =
           Some (Inr (fitsLine (type piece) fromRow fromCol toRow toCol \<and>
                      (\<forall>(r, c) \<in> set (between fromRow fromCol toRow toCol). at board r c = Inr None)))"
    by (rule isValidMove_line [OF wf src dst piece kind])
next
  fix r c blocker
  assume a: "fitsLine (type piece) fromRow fromCol toRow toCol \<and>
             (r, c) \<in> set (between fromRow fromCol toRow toCol)"
  then have mem: "(r, c) \<in> set (between fromRow fromCol toRow toCol)" by simp
  from a kind
  have line: "toRow = fromRow \<or> toCol = fromCol \<or> \<bar>toRow - fromRow\<bar> = \<bar>toCol - fromCol\<bar>"
    by (auto simp add: fitsLine_def)
  note inside = between_inside [OF src dst line mem]
  let ?board = "place board r c blocker"
  have wf': "wf_board ?board" by (rule wf_board_place [OF wf])
  have piece': "at ?board fromRow fromCol = Inr (Some piece)"
    using at_place [OF wf inside(1) src, of blocker] inside(2) piece by auto
  have "at ?board r c = Inr (Some blocker)"
    using at_place [OF wf inside(1) inside(1), of blocker] by simp
  with mem have "\<not> (\<forall>(r, c) \<in> set (between fromRow fromCol toRow toCol). at ?board r c = Inr None)"
    by force
  then show "isValidMove ?board fromRow fromCol toRow toCol = Some (Inr False)"
    using isValidMove_line [OF wf' src dst piece' kind] by simp
qed

theorem line_piece_move_witness:
  "wf_board (place initialBoard 4 3 \<lparr>type = Queen, color = White\<rparr>) \<and>
   onBoard 4 3 \<and> onBoard 2 5 \<and>
   at (place initialBoard 4 3 \<lparr>type = Queen, color = White\<rparr>) 4 3
     = Inr (Some \<lparr>type = Queen, color = White\<rparr>) \<and>
   type \<lparr>type = Queen, color = White\<rparr> \<in> {Rook, Bishop, Queen} \<and>
   fitsLine Queen 4 3 2 5 \<and> (3, 4) \<in> set (between 4 3 2 5) \<and>
   isValidMove (place initialBoard 4 3 \<lparr>type = Queen, color = White\<rparr>) 4 3 2 5
     = Some (Inr True) \<and>
   isValidMove (place (place initialBoard 4 3 \<lparr>type = Queen, color = White\<rparr>) 3 4
                  \<lparr>type = Pawn, color = Black\<rparr>) 4 3 2 5
     = Some (Inr False)"
proof -
  let ?q = "\<lparr>type = Queen, color = White\<rparr>"
  let ?b = "place initialBoard 4 3 ?q"
  have wf: "wf_board ?b" by (rule wf_board_place [OF wf_initialBoard])
  have src: "onBoard 4 3" and dst: "onBoard 2 5" and mid: "onBoard 3 4"
    by (simp_all add: onBoard_def)
  have piece: "at ?b 4 3 = Inr (Some ?q)"
    using at_place [OF wf_initialBoard src src] by simp
  have kind: "type ?q \<in> {Rook, Bishop, Queen}" by simp
  have fits: "fitsLine Queen 4 3 2 5" by (simp add: fitsLine_def)
  have btw: "between 4 3 2 5 = [(3, 4)]" by (simp add: between_def)
  have empty: "at ?b 3 4 = Inr None"
    using at_place [OF wf_initialBoard src mid, of ?q]
    by (simp add: at_def initialBoard_rows)
  note main = line_piece_move [OF wf src dst piece kind]
  from main have "isValidMove ?b 4 3 2 5 = Some (Inr True)"
    using fits btw empty by simp
  moreover from main have "isValidMove (place ?b 3 4 \<lparr>type = Pawn, color = Black\<rparr>) 4 3 2 5
     = Some (Inr False)"
    using fits btw by simp
  ultimately show ?thesis
    using wf src dst piece kind fits btw by simp
qed

section \<open>The scan of \<open>getPossibleMoves\<close>\<close>

text \<open>
  On a board of eight by eight squares every call of \<open>isValidMove\<close> between two squares
  returns, so the scan returns too: its result is the list of the 64 squares filtered by
  the condition of the inner \<^verbatim>\<open>if\<close>.
\<close>

lemma pawnMove_returns:
  assumes wf: "wf_board board" and dst: "onBoard toRow toCol"
  shows "\<exists>v. pawnMove board piece fromRow fromCol toRow toCol = Some (Inr v)"
proof -
  obtain cell where "at board toRow toCol = Inr cell"
    using at_onBoard [OF wf dst] by blast
  then show ?thesis
    by (auto simp add: pawnMove_def isEmpty_def Let_def split: option.split)
qed

lemma isValidMove_returns:
  assumes wf: "wf_board board" and src: "onBoard fromRow fromCol" and dst: "onBoard toRow toCol"
  shows "\<exists>v. isValidMove board fromRow fromCol toRow toCol = Some (Inr v)"
proof (cases "board ! nat fromRow ! nat fromCol")
  case None
  then show ?thesis
    using at_onBoard [OF wf src] by (auto simp add: isValidMove_def)
next
  case (Some piece)
  then have piece: "at board fromRow fromCol = Inr (Some piece)"
    using at_onBoard [OF wf src] by simp
  show ?thesis
  proof (cases "type piece \<in> {Rook, Bishop, Queen}")
    case True
    then show ?thesis
      using isValidMove_line [OF wf src dst piece] by simp
  next
    case False
    then show ?thesis
      using piece pawnMove_returns [OF wf dst, of piece fromRow fromCol]
      by (cases "type piece") (auto simp add: isValidMove_def Let_def)
  qed
qed

lemma keepMove_returns:
  assumes wf: "wf_board board" and src: "onBoard row col" and dst: "onBoard r c"
  shows "keepMove board row col r c =
           Some (Inr (isValidMove board row col r c = Some (Inr True) \<and>
                      (\<forall>target piece. at board r c = Inr (Some target) \<and>
                                      at board row col = Inr (Some piece) \<longrightarrow>
                                      color target \<noteq> color piece)))"
proof -
  from isValidMove_returns [OF wf src dst]
  obtain v where v: "isValidMove board row col r c = Some (Inr v)" by blast
  show ?thesis
  proof (cases v)
    case False
    with v show ?thesis by (simp add: keepMove_def)
  next
    case True
    have "at board row col \<noteq> Inr None"
      using v True by (auto simp add: isValidMove_def)
    then obtain piece where piece: "at board row col = Inr (Some piece)"
      using at_onBoard [OF wf src] by (cases "board ! nat row ! nat col") auto
    show ?thesis
      using v True piece at_onBoard [OF wf dst]
      by (cases "board ! nat r ! nat c") (simp_all add: keepMove_def)
  qed
qed

lemma keepMove_keeps:
  assumes wf: "wf_board board" and src: "onBoard row col" and dst: "onBoard r c"
  shows "keepMove board row col r c = Some (Inr (keeps board row col (r, c)))"
  unfolding keeps_def fst_conv snd_conv
  using keepMove_returns [OF wf src dst] by auto

lemma getPossibleMoves_cols_filter:
  "wf_board board \<Longrightarrow> onBoard row col \<Longrightarrow> 0 \<le> r \<Longrightarrow> r < 8 \<Longrightarrow> 0 \<le> c \<Longrightarrow>
   getPossibleMoves_cols board row col r c moves =
     Some (Inr (moves @ filter (keeps board row col) (map (\<lambda>c. (r, c)) [c .. 7])))"
proof (induction board row col r c moves rule: getPossibleMoves_cols.induct)
  case (1 board row col r c moves)
  show ?case
  proof (cases "c < 8")
    case False
    then have "[c .. 7] = []" by simp
    with False show ?thesis
      by (subst getPossibleMoves_cols.simps) simp
  next
    case True
    then have sq: "onBoard r c" using "1.prems" by (simp add: onBoard_def)
    note keep = keepMove_keeps [OF "1.prems"(1,2) sq]
    have next_c: "0 \<le> c + 1" using "1.prems" by simp
    note ih = "1.IH" [OF True keep refl "1.prems"(1,2,3,4) next_c]
    have cols: "[c .. 7] = c # [c + 1 .. 7]"
      using True by (simp add: upto_rec1)
    show ?thesis
      using True keep ih cols by (subst getPossibleMoves_cols.simps) simp
  qed
qed

lemma getPossibleMoves_rows_filter:
  "wf_board board \<Longrightarrow> onBoard row col \<Longrightarrow> 0 \<le> r \<Longrightarrow>
   getPossibleMoves_rows board row col r moves =
     Some (Inr (moves @ filter (keeps board row col)
                          (concat (map (\<lambda>r. map (\<lambda>c. (r, c)) [0 .. 7]) [r .. 7]))))"
proof (induction board row col r moves rule: getPossibleMoves_rows.induct)
  case (1 board row col r moves)
  show ?case
  proof (cases "r < 8")
    case False
    then have "[r .. 7] = []" by simp
    with False show ?thesis
      by (subst getPossibleMoves_rows.simps) simp
  next
    case True
    have cols: "getPossibleMoves_cols board row col r 0 moves =
                  Some (Inr (moves @ filter (keeps board row col) (map (\<lambda>c. (r, c)) [0 .. 7])))"
      using "1.prems" True by (intro getPossibleMoves_cols_filter) simp_all
    have next_r: "0 \<le> r + 1" using "1.prems" by simp
    note ih = "1.IH" [OF True cols refl "1.prems"(1,2) next_r]
    have rows: "[r .. 7] = r # [r + 1 .. 7]"
      using True by (simp add: upto_rec1)
    show ?thesis
      using True cols ih rows by (subst getPossibleMoves_rows.simps) simp
  qed
qed

lemma getPossibleMoves_filter:
  "wf_board board \<Longrightarrow> onBoard row col \<Longrightarrow>
   getPossibleMoves board row col = Some (Inr (filter (keeps board row col) allSquares))"
  by (simp add: getPossibleMoves_def allSquares_def getPossibleMoves_rows_filter)

lemma set_allSquares: "set allSquares = {(r, c). onBoard r c}"
  by (auto simp add: allSquares_def onBoard_def image_iff)

lemma distinct_allSquares: "distinct allSquares"
  unfolding allSquares_def
  by (rule distinct_concat) (auto simp add: distinct_map inj_on_def)

lemma mem_getPossibleMoves:
  assumes wf: "wf_board board" and src: "onBoard row col"
  shows "\<exists>moves. getPossibleMoves board row col = Some (Inr moves) \<and> distinct moves \<and>
           set moves = {(r, c). onBoard r c \<and> keeps board row col (r, c)}"
  using getPossibleMoves_filter [OF wf src] distinct_allSquares
  by (auto simp add: set_allSquares)

lemma keeps_iff:
  assumes wf: "wf_board board" and src: "onBoard row col" and dst: "onBoard r c"
  shows "keeps board row col (r, c) \<longleftrightarrow>
           isValidMove board row col r c = Some (Inr True) \<and>
           (\<forall>target piece. at board r c = Inr (Some target) \<and>
                           at board row col = Inr (Some piece) \<longrightarrow>
                           color target \<noteq> color piece)"
  using keepMove_returns [OF wf src dst] keepMove_keeps [OF wf src dst] by simp

lemma isValidMove_king:
  "at board fromRow fromCol = Inr (Some piece) \<Longrightarrow> type piece = King \<Longrightarrow>
   isValidMove board fromRow fromCol toRow toCol =
     Some (Inr (\<bar>toRow - fromRow\<bar> \<le> 1 \<and> \<bar>toCol - fromCol\<bar> \<le> 1))"
  by (simp add: isValidMove_def Let_def)

lemma isValidMove_line_zero:
  assumes wf: "wf_board board" and src: "onBoard row col"
    and piece: "at board row col = Inr (Some piece)"
    and kind: "type piece \<in> {Rook, Bishop, Queen}"
  shows "isValidMove board row col row col = Some (Inr True)"
proof -
  have "between row col row col = []" by (simp add: between_def)
  moreover have "fitsLine (type piece) row col row col"
    using kind by (auto simp add: fitsLine_def)
  ultimately show ?thesis
    using isValidMove_line [OF wf src src piece kind] by simp
qed

text \<open>
  Claim C3. For an occupied source square, \<open>getPossibleMoves\<close> returns a list that
  contains no square holding a piece of the colour of the piece on the source square.
\<close>

theorem getPossibleMoves_no_own_color:
  assumes wf: "wf_board board" and src: "onBoard row col"
    and piece: "at board row col = Inr (Some piece)"
  shows "\<exists>moves. getPossibleMoves board row col = Some (Inr moves) \<and>
           (\<forall>(r, c) \<in> set moves. \<forall>target. at board r c = Inr (Some target) \<longrightarrow>
                                          color target \<noteq> color piece)"
proof -
  from mem_getPossibleMoves [OF wf src]
  obtain moves where moves: "getPossibleMoves board row col = Some (Inr moves)"
    and mem: "set moves = {(r, c). onBoard r c \<and> keeps board row col (r, c)}"
    by blast
  have "\<forall>(r, c) \<in> set moves. \<forall>target. at board r c = Inr (Some target) \<longrightarrow>
                                          color target \<noteq> color piece"
  proof (clarify)
    fix r c target
    assume "(r, c) \<in> set moves" and target: "at board r c = Inr (Some target)"
      and same: "color target = color piece"
    then have dst: "onBoard r c" and "keeps board row col (r, c)"
      using mem by auto
    then show False
      using keeps_iff [OF wf src dst] target piece same by blast
  qed
  with moves show ?thesis by blast
qed

theorem getPossibleMoves_no_own_color_witness:
  "wf_board initialBoard \<and> onBoard 7 1 \<and>
   at initialBoard 7 1 = Inr (Some \<lparr>type = Knight, color = White\<rparr>) \<and>
   at initialBoard 6 3 = Inr (Some \<lparr>type = Pawn, color = White\<rparr>) \<and>
   isValidMove initialBoard 7 1 6 3 = Some (Inr True) \<and>
   (\<exists>moves. getPossibleMoves initialBoard 7 1 = Some (Inr moves) \<and> (6, 3) \<notin> set moves)"
proof -
  have src: "onBoard 7 1" by (simp add: onBoard_def)
  have piece: "at initialBoard 7 1 = Inr (Some \<lparr>type = Knight, color = White\<rparr>)"
    and own: "at initialBoard 6 3 = Inr (Some \<lparr>type = Pawn, color = White\<rparr>)"
    by (simp_all add: at_def initialBoard_rows)
  have valid: "isValidMove initialBoard 7 1 6 3 = Some (Inr True)"
    using piece by (simp add: isValidMove_def)
  from getPossibleMoves_no_own_color [OF wf_initialBoard src piece]
  obtain moves where moves: "getPossibleMoves initialBoard 7 1 = Some (Inr moves)"
    and other: "\<forall>(r, c) \<in> set moves. \<forall>target. at initialBoard r c = Inr (Some target) \<longrightarrow>
                                          color target \<noteq> White"
    by auto
  from other own have "(6, 3) \<notin> set moves" by fastforce
  with moves wf_initialBoard src piece own valid show ?thesis by blast
qed

text \<open>
  Claim C10. For an occupied source square, the list returned by \<open>getPossibleMoves\<close>
  never contains the source square itself, although \<open>isValidMove\<close> alone accepts the
  move of zero displacement for a king, a rook, a bishop and a queen: the source square
  holds a piece of the mover's colour.
\<close>

theorem getPossibleMoves_not_source:
  assumes wf: "wf_board board" and src: "onBoard row col"
    and piece: "at board row col = Inr (Some piece)"
  shows "(\<exists>moves. getPossibleMoves board row col = Some (Inr moves) \<and> (row, col) \<notin> set moves) \<and>
         (type piece \<in> {King, Rook, Bishop, Queen} \<longrightarrow>
            isValidMove board row col row col = Some (Inr True))"
proof
  from mem_getPossibleMoves [OF wf src]
  obtain moves where moves: "getPossibleMoves board row col = Some (Inr moves)"
    and mem: "set moves = {(r, c). onBoard r c \<and> keeps board row col (r, c)}"
    by blast
  have "\<not> keeps board row col (row, col)"
    using keeps_iff [OF wf src src] piece by blast
  then have "(row, col) \<notin> set moves" using mem by simp
  with moves show "\<exists>moves. getPossibleMoves board row col = Some (Inr moves) \<and>
                     (row, col) \<notin> set moves"
    by blast
next
  show "type piece \<in> {King, Rook, Bishop, Queen} \<longrightarrow>
          isValidMove board row col row col = Some (Inr True)"
  proof
    assume kind: "type piece \<in> {King, Rook, Bishop, Queen}"
    show "isValidMove board row col row col = Some (Inr True)"
    proof (cases "type piece = King")
      case True
      then show ?thesis using isValidMove_king [OF piece True, of row col] by simp
    next
      case False
      with kind have "type piece \<in> {Rook, Bishop, Queen}" by auto
      then show ?thesis by (rule isValidMove_line_zero [OF wf src piece])
    qed
  qed
qed

theorem getPossibleMoves_not_source_witness:
  "wf_board initialBoard \<and> onBoard 0 0 \<and>
   at initialBoard 0 0 = Inr (Some \<lparr>type = Rook, color = Black\<rparr>) \<and>
   (\<exists>moves. getPossibleMoves initialBoard 0 0 = Some (Inr moves) \<and> (0, 0) \<notin> set moves) \<and>
   isValidMove initialBoard 0 0 0 0 = Some (Inr True)"
proof -
  have src: "onBoard 0 0" by (simp add: onBoard_def)
  have piece: "at initialBoard 0 0 = Inr (Some \<lparr>type = Rook, color = Black\<rparr>)"
    by (simp add: at_def initialBoard_rows)
  from getPossibleMoves_not_source [OF wf_initialBoard src piece]
  show ?thesis using wf_initialBoard src piece by simp
qed

section \<open>A king alone on the board\<close>

text \<open>
  The squares next to a square of the board form a block of two or three rows by two or
  three columns, without the square itself.
\<close>

lemma neighbours_card:
  assumes src: "onBoard row col"
  shows "3 \<le> card {(r, c). onBoard r c \<and> \<bar>r - row\<bar> \<le> 1 \<and> \<bar>c - col\<bar> \<le> 1 \<and> (r, c) \<noteq> (row, col)}"
    and "card {(r, c). onBoard r c \<and> \<bar>r - row\<bar> \<le> 1 \<and> \<bar>c - col\<bar> \<le> 1 \<and> (r, c) \<noteq> (row, col)} \<le> 8"
proof -
  let ?R = "{max 0 (row - 1) .. min 7 (row + 1)}"
  let ?C = "{max 0 (col - 1) .. min 7 (col + 1)}"
  let ?S = "{(r, c). onBoard r c \<and> \<bar>r - row\<bar> \<le> 1 \<and> \<bar>c - col\<bar> \<le> 1 \<and> (r, c) \<noteq> (row, col)}"
  have S: "?S = ?R \<times> ?C - {(row, col)}"
  proof (intro set_eqI)
    fix sq :: "int \<times> int"
    obtain r c where sq: "sq = (r, c)" by (cases sq)
    have "(0 \<le> r \<and> r < 8) \<and> \<bar>r - row\<bar> \<le> 1 \<longleftrightarrow> r \<in> ?R"
      by (simp add: abs_le_iff) linarith
    moreover have "(0 \<le> c \<and> c < 8) \<and> \<bar>c - col\<bar> \<le> 1 \<longleftrightarrow> c \<in> ?C"
      by (simp add: abs_le_iff) linarith
    ultimately show "sq \<in> ?S \<longleftrightarrow> sq \<in> ?R \<times> ?C - {(row, col)}"
      unfolding sq onBoard_def by blast
  qed
  have inside: "(row, col) \<in> ?R \<times> ?C"
    using src unfolding onBoard_def by simp
  have "card ?S = card (?R \<times> ?C) - 1"
    unfolding S using inside by (simp only: card_Diff_singleton)
  then have card: "card ?S = card ?R * card ?C - 1"
    by (simp only: card_cartesian_product)
  have "row = 0 \<or> row = 7 \<or> (1 \<le> row \<and> row \<le> 6)"
    using src unfolding onBoard_def by linarith
  then have R: "card ?R = 2 \<or> card ?R = 3"
    by (elim disjE) simp_all
  have "col = 0 \<or> col = 7 \<or> (1 \<le> col \<and> col \<le> 6)"
    using src unfolding onBoard_def by linarith
  then have C: "card ?C = 2 \<or> card ?C = 3"
    by (elim disjE) simp_all
  have "3 \<le> a * b - 1 \<and> a * b - 1 \<le> 8" if "a = 2 \<or> a = 3" "b = 2 \<or> b = 3" for a b :: nat
    using that by (elim disjE) simp_all
  from this [OF R C] show "3 \<le> card ?S" and "card ?S \<le> 8"
    unfolding card by blast+
qed

text \<open>
  Claim C7. For a king alone on the board, \<open>getPossibleMoves\<close> returns exactly the
  squares of the board whose row and column each differ from the king's by at most 1,
  without the king's own square; there are between 3 and 8 of them, and none is listed
  twice.
\<close>

theorem getPossibleMoves_lone_king:
  assumes wf: "wf_board board" and src: "onBoard row col"
    and piece: "at board row col = Inr (Some piece)" and king: "type piece = King"
    and others: "\<forall>r c. onBoard r c \<and> (r, c) \<noteq> (row, col) \<longrightarrow> at board r c = Inr None"
  shows "\<exists>moves. getPossibleMoves board row col = Some (Inr moves) \<and>
           set moves = {(r, c). onBoard r c \<and> \<bar>r - row\<bar> \<le> 1 \<and> \<bar>c - col\<bar> \<le> 1 \<and>
                               (r, c) \<noteq> (row, col)} \<and>
           distinct moves \<and> 3 \<le> length moves \<and> length moves \<le> 8"
proof -
  from mem_getPossibleMoves [OF wf src]
  obtain moves where moves: "getPossibleMoves board row col = Some (Inr moves)"
    and dist: "distinct moves"
    and mem: "set moves = {(r, c). onBoard r c \<and> keeps board row col (r, c)}"
    by blast
  have keep: "keeps board row col (r, c) \<longleftrightarrow>
                \<bar>r - row\<bar> \<le> 1 \<and> \<bar>c - col\<bar> \<le> 1 \<and> (r, c) \<noteq> (row, col)"
    if dst: "onBoard r c" for r c
  proof (cases "(r, c) = (row, col)")
    case True
    then show ?thesis
      using keeps_iff [OF wf src src] piece by blast
  next
    case False
    with others dst have "at board r c = Inr None" by blast
    then show ?thesis
      using False keeps_iff [OF wf src dst] isValidMove_king [OF piece king, of r c]
      by simp
  qed
  have set_eq: "set moves = {(r, c). onBoard r c \<and> \<bar>r - row\<bar> \<le> 1 \<and> \<bar>c - col\<bar> \<le> 1 \<and>
                               (r, c) \<noteq> (row, col)}"
    unfolding mem using keep by blast
  have "length moves = card (set moves)"
    using dist by (simp add: distinct_card)
  with neighbours_card [OF src] set_eq
  have "3 \<le> length moves" "length moves \<le> 8" by simp_all
  with moves set_eq dist show ?thesis by blast
qed

theorem getPossibleMoves_lone_king_witness:
  "wf_board (place (replicate 8 (replicate 8 None)) 0 0 \<lparr>type = King, color = White\<rparr>) \<and>
   onBoard 0 0 \<and>
   at (place (replicate 8 (replicate 8 None)) 0 0 \<lparr>type = King, color = White\<rparr>) 0 0
     = Inr (Some \<lparr>type = King, color = White\<rparr>) \<and>
   (\<exists>moves.
      getPossibleMoves (place (replicate 8 (replicate 8 None)) 0 0
                          \<lparr>type = King, color = White\<rparr>) 0 0 = Some (Inr moves) \<and>
      set moves = {(0, 1), (1, 0), (1, 1)} \<and> length moves = 3)"
proof -
  let ?e = "replicate 8 (replicate 8 None) :: Board"
  let ?k = "\<lparr>type = King, color = White\<rparr>"
  let ?b = "place ?e 0 0 ?k"
  have wf_e: "wf_board ?e"
    by (simp add: wf_board_def list_all_length)
  have empty: "at ?e r c = Inr None" if "onBoard r c" for r c
  proof -
    from that have "nat r < 8" "nat c < 8" unfolding onBoard_def by linarith+
    then have "?e ! nat r ! nat c = None" by simp
    with at_onBoard [OF wf_e that] show ?thesis by simp
  qed
  have wf: "wf_board ?b" by (rule wf_board_place [OF wf_e])
  have src: "onBoard 0 0" by (simp add: onBoard_def)
  have piece: "at ?b 0 0 = Inr (Some ?k)"
    using at_place [OF wf_e src src] by simp
  have king: "type ?k = King" by simp
  have others: "\<forall>r c. onBoard r c \<and> (r, c) \<noteq> (0, 0) \<longrightarrow> at ?b r c = Inr None"
    using at_place [OF wf_e src] empty by auto
  from getPossibleMoves_lone_king [OF wf src piece king others]
  obtain moves where moves: "getPossibleMoves ?b 0 0 = Some (Inr moves)"
    and mem: "set moves = {(r, c). onBoard r c \<and> \<bar>r - 0\<bar> \<le> 1 \<and> \<bar>c - 0\<bar> \<le> 1 \<and>
                                  (r, c) \<noteq> (0, 0)}"
    and dist: "distinct moves"
    by blast
  have "{(r, c). onBoard r c \<and> \<bar>r - 0\<bar> \<le> 1 \<and> \<bar>c - 0\<bar> \<le> 1 \<and> (r, c) \<noteq> (0, 0)}
          = {(0, 1), (1, 0), (1, 1 :: int)}"
    unfolding onBoard_def by auto
  with mem have set_eq: "set moves = {(0, 1), (1, 0), (1, 1)}" by simp
  have "length moves = card (set moves)"
    using dist by (simp add: distinct_card)
  with set_eq have "length moves = 3" by simp
  with moves set_eq wf src piece show ?thesis by blast
qed


section \<open>The initial position\<close>

text \<open>
  Claim C8. On the initial board, \<open>getPossibleMoves\<close> returns the squares (4,4) and (5,4)
  for the white pawn on (6,4), the squares (5,0) and (5,2) for the white knight on (7,1),
  and no square at all for the black rook on (0,0). The lists are in the order of the
  scan, row by row.
\<close>

section \<open>The initial position\<close>

text \<open>
  Claim C8. On the initial board, \<open>getPossibleMoves\<close> returns the squares (4,4) and (5,4)
  for the white pawn on (6,4), the squares (5,0) and (5,2) for the white knight on (7,1),
  and no square at all for the black rook on (0,0). The lists are in the order of the
  scan, row by row.
\<close>

theorem getPossibleMoves_initialBoard:
  "getPossibleMoves initialBoard 6 4 = Some (Inr [(4, 4), (5, 4)]) \<and>
   getPossibleMoves initialBoard 7 1 = Some (Inr [(5, 0), (5, 2)]) \<and>
   getPossibleMoves initialBoard 0 0 = Some (Inr [])"
  by code_simp

end
